theory Spec2Isabelle
  imports Complex_Main "HOL-Library.AList"
begin

section \<open>Strings of the host language\<close>

text \<open>
  A JavaScript string is a sequence of code units. The model uses \<^typ>\<open>string\<close>, one
  \<^typ>\<open>char\<close> per code unit, and so covers the code units below 256. The white space
  that \<open>String.prototype.trim\<close> removes is, in that range, TAB, LF, VT, FF, CR, SPACE
  and NBSP; the line terminators that the pattern \<open>.\<close> refuses are LF and CR.
\<close>

definition LF :: char where
  "LF = CHR 0x0A"

definition DQUOTE :: char where
  "DQUOTE = CHR 0x22"

definition isWhiteSpace :: "char \<Rightarrow> bool" where
  "isWhiteSpace c = (c \<in> set [CHR 0x09, CHR 0x0A, CHR 0x0B, CHR 0x0C, CHR 0x0D, CHR 0x20, CHR 0xA0])"

definition isLineTerminator :: "char \<Rightarrow> bool" where
  "isLineTerminator c = (c = CHR 0x0A \<or> c = CHR 0x0D)"

definition isDigit :: "char \<Rightarrow> bool" where
  "isDigit c = (c \<in> set ''0123456789'')"

definition isIdentStart :: "char \<Rightarrow> bool" where
  "isIdentStart c = (c \<in> set ''ABCDEFGHIJKLMNOPQRSTUVWXYZabcdefghijklmnopqrstuvwxyz_'')"

definition isWordChar :: "char \<Rightarrow> bool" where
  "isWordChar c = (isIdentStart c \<or> isDigit c)"

definition trim :: "string \<Rightarrow> string" where
  "trim s = rev (dropWhile isWhiteSpace (rev (dropWhile isWhiteSpace s)))"

text \<open>
  \<open>s.split(sep)\<close> for a one-character separator: the pieces between the separators, all
  of them, so that the empty string gives one empty piece.
\<close>

fun split :: "char \<Rightarrow> string \<Rightarrow> string list" where
  "split sep [] = [[]]"
| "split sep (c # cs) =
     (if c = sep then [] # split sep cs
      else (case split sep cs of p # ps \<Rightarrow> (c # p) # ps | [] \<Rightarrow> [[c]]))"

fun join :: "char \<Rightarrow> string list \<Rightarrow> string" where
  "join sep [] = []"
| "join sep [l] = l"
| "join sep (l # m # ls) = l @ sep # join sep (m # ls)"

definition startsWith :: "string \<Rightarrow> string \<Rightarrow> bool" where
  "startsWith s p = (take (length p) s = p)"

section \<open>Regular expressions\<close>

text \<open>
  The patterns of the source are anchored at both ends and use no back-reference, so a
  line matches exactly when it belongs to the language of the pattern. Patterns are values
  of \<open>rexp\<close>; \<open>matches\<close> decides membership by derivatives.
\<close>

datatype rexp =
    Never
  | Eps
  | Cls "char \<Rightarrow> bool"
  | Seq rexp rexp
  | Alt rexp rexp
  | Star rexp

definition Chr :: "char \<Rightarrow> rexp" where
  "Chr c = Cls (\<lambda>x. x = c)"

definition Plus :: "rexp \<Rightarrow> rexp" where
  "Plus r = Seq r (Star r)"

fun nullable :: "rexp \<Rightarrow> bool" where
  "nullable Never = False"
| "nullable Eps = True"
| "nullable (Cls P) = False"
| "nullable (Seq r s) = (nullable r \<and> nullable s)"
| "nullable (Alt r s) = (nullable r \<or> nullable s)"
| "nullable (Star r) = True"

fun deriv :: "char \<Rightarrow> rexp \<Rightarrow> rexp" where
  "deriv c Never = Never"
| "deriv c Eps = Never"
| "deriv c (Cls P) = (if P c then Eps else Never)"
| "deriv c (Seq r s) =
     (if nullable r then Alt (Seq (deriv c r) s) (deriv c s) else Seq (deriv c r) s)"
| "deriv c (Alt r s) = Alt (deriv c r) (deriv c s)"
| "deriv c (Star r) = Seq (deriv c r) (Star r)"

fun matches :: "rexp \<Rightarrow> string \<Rightarrow> bool" where
  "matches r [] = nullable r"
| "matches r (c # cs) = matches (deriv c r) cs"

section \<open>Numbers\<close>

text \<open>
  A number value carries the exact mathematical value of the literal it was read from;
  the rounding of that value to an IEEE-754 double is a function of it and is not
  modelled. \<open>NaN\<close>, the two infinities and the negative zero are values of their own.
\<close>

datatype jsnumber = NaN | PosInfinity | NegInfinity | NegZero | Finite rat

definition isHexDigit :: "char \<Rightarrow> bool" where
  "isHexDigit c = (c \<in> set ''0123456789abcdefABCDEF'')"

definition isOctalDigit :: "char \<Rightarrow> bool" where
  "isOctalDigit c = (c \<in> set ''01234567'')"

definition isBinaryDigit :: "char \<Rightarrow> bool" where
  "isBinaryDigit c = (c \<in> set ''01'')"

definition digitValue :: "char \<Rightarrow> nat" where
  "digitValue c =
     (if isDigit c then of_char c - 48
      else if c \<in> set ''abcdef'' then of_char c - 87
      else of_char c - 55)"

definition radixValue :: "nat \<Rightarrow> string \<Rightarrow> nat" where
  "radixValue b ds = foldl (\<lambda>a c. b * a + digitValue c) 0 ds"

definition pow10 :: "int \<Rightarrow> rat" where
  "pow10 e = (if 0 \<le> e then 10 ^ nat e else 1 / 10 ^ nat (- e))"

text \<open>
  \<open>ExponentPart\<close>, when present, is \<open>e\<close> or \<open>E\<close>, an optional sign and one or more
  digits, up to the end of the literal.
\<close>

definition exponentPart :: "string \<Rightarrow> int option" where
  "exponentPart s =
     (case s of
        [] \<Rightarrow> Some 0
      | c # r \<Rightarrow>
          if c = CHR ''e'' \<or> c = CHR ''E'' then
            (let neg = (r \<noteq> [] \<and> hd r = CHR ''-'');
                 ds = (if r \<noteq> [] \<and> (hd r = CHR ''-'' \<or> hd r = CHR ''+'') then tl r else r)
             in if ds \<noteq> [] \<and> list_all isDigit ds
                then Some ((if neg then - 1 else 1) * int (radixValue 10 ds))
                else None)
          else None)"

text \<open>
  \<open>StrUnsignedDecimalLiteral\<close> without \<open>Infinity\<close>: digits, an optional point with
  optional digits, an optional exponent; at least one digit before or after the point.
\<close>

definition unsignedDecimal :: "string \<Rightarrow> rat option" where
  "unsignedDecimal s =
     (let ip = takeWhile isDigit s;
          r1 = dropWhile isDigit s;
          hasDot = (r1 \<noteq> [] \<and> hd r1 = CHR ''.'');
          fp = (if hasDot then takeWhile isDigit (tl r1) else []);
          r2 = (if hasDot then dropWhile isDigit (tl r1) else r1)
      in if ip = [] \<and> fp = [] then None
         else (case exponentPart r2 of
                 None \<Rightarrow> None
               | Some e \<Rightarrow> Some (of_nat (radixValue 10 (ip @ fp)) * pow10 (e - int (length fp)))))"

definition strDecimalLiteral :: "string \<Rightarrow> jsnumber" where
  "strDecimalLiteral s =
     (let neg = (s \<noteq> [] \<and> hd s = CHR ''-'');
          u = (if s \<noteq> [] \<and> (hd s = CHR ''-'' \<or> hd s = CHR ''+'') then tl s else s)
      in if u = ''Infinity'' then (if neg then NegInfinity else PosInfinity)
         else (case unsignedDecimal u of
                 None \<Rightarrow> NaN
               | Some v \<Rightarrow> if neg then (if v = 0 then NegZero else Finite (- v)) else Finite v))"

definition nonDecimalLiteral :: "string \<Rightarrow> jsnumber option" where
  "nonDecimalLiteral s =
     (case s of
        z # x # ds \<Rightarrow>
          if z = CHR ''0'' \<and> ds \<noteq> [] then
            (if x \<in> set ''xX'' \<and> list_all isHexDigit ds then Some (Finite (of_nat (radixValue 16 ds)))
             else if x \<in> set ''oO'' \<and> list_all isOctalDigit ds then Some (Finite (of_nat (radixValue 8 ds)))
             else if x \<in> set ''bB'' \<and> list_all isBinaryDigit ds then Some (Finite (of_nat (radixValue 2 ds)))
             else None)
          else None
      | _ \<Rightarrow> None)"

text \<open>
  \<open>Number(s)\<close> on a string is \<open>StringToNumber\<close> of ECMA-262: the string is trimmed, the
  empty string is the number 0, a literal is its value, and anything else is \<open>NaN\<close>.
\<close>

definition Number :: "string \<Rightarrow> jsnumber" where
  "Number s =
     (let t = trim s
      in if t = [] then Finite 0
         else (case nonDecimalLiteral t of Some n \<Rightarrow> n | None \<Rightarrow> strDecimalLiteral t))"

text \<open>
  \<open>parseInt(s, 10)\<close>: leading white space and a sign are skipped, the longest prefix of
  decimal digits is read, and no digit at all is \<open>NaN\<close>.
\<close>

definition parseInt10 :: "string \<Rightarrow> jsnumber" where
  "parseInt10 s =
     (let t = dropWhile isWhiteSpace s;
          neg = (t \<noteq> [] \<and> hd t = CHR ''-'');
          u = (if t \<noteq> [] \<and> (hd t = CHR ''-'' \<or> hd t = CHR ''+'') then tl t else t);
          ds = takeWhile isDigit u
      in if ds = [] then NaN
         else if neg then (if radixValue 10 ds = 0 then NegZero else Finite (- of_nat (radixValue 10 ds)))
         else Finite (of_nat (radixValue 10 ds)))"

section \<open>Header Matcher and Decomposer\<close>

text \<open>The pattern of \<open>isHeader\<close> and \<open>parseHeader\<close>, between its anchors.\<close>

definition headerPattern :: rexp where
  "headerPattern =
     Seq (Cls isIdentStart) (Seq (Star (Cls isWordChar))
       (Seq (Chr (CHR ''['')) (Seq (Plus (Cls isDigit)) (Seq (Chr (CHR '']''))
         (Seq (Chr (CHR ''{'')) (Seq (Plus (Cls (\<lambda>c. c \<noteq> CHR ''}'')))
           (Seq (Chr (CHR ''}'')) (Chr (CHR '':'')))))))))"

definition isHeader :: "string \<Rightarrow> bool" where
  "isHeader line = matches headerPattern line"

text \<open>The tuple \<open>{ name, count, fields }\<close> that \<open>parseHeader\<close> returns.\<close>

record header =
  hdr_name :: string
  hdr_count :: jsnumber
  hdr_fields :: "string list"

text \<open>
  The three groups of the pattern are the run of word characters at the start of the
  line, the run of digits after the bracket, and the run of characters other than the
  closing brace after the opening one.
\<close>

definition parseHeader :: "string \<Rightarrow> header option" where
  "parseHeader line =
     (if \<not> matches headerPattern line then None
      else
        (let m1 = takeWhile isWordChar line;
             r1 = tl (dropWhile isWordChar line);
             m2 = takeWhile isDigit r1;
             r2 = tl (tl (dropWhile isDigit r1));
             m3 = takeWhile (\<lambda>c. c \<noteq> CHR ''}'') r2
         in Some \<lparr>hdr_name = m1, hdr_count = parseInt10 m2,
                  hdr_fields = filter (\<lambda>f. f \<noteq> []) (map trim (split (CHR '','') m3))\<rparr>))"

section \<open>Scalar Coercer\<close>

datatype jsval = JNum jsnumber | JBool bool | JNull | JStr string

text \<open>
  The pattern of the quote stripping: a double quote, any characters but line
  terminators, a double quote. It is anchored, so on a match the group is the token
  without its first and last character, and that replaces the whole token.
\<close>

definition quotedPattern :: rexp where
  "quotedPattern = Seq (Chr DQUOTE) (Seq (Star (Cls (\<lambda>c. \<not> isLineTerminator c))) (Chr DQUOTE))"

definition stripQuotes :: "string \<Rightarrow> string" where
  "stripQuotes t = (if matches quotedPattern t then butlast (tl t) else t)"

definition parseValue :: "string \<Rightarrow> jsval" where
  "parseValue raw =
     (let t = trim raw
      in if t = ''true'' then JBool True
         else if t = ''false'' then JBool False
         else if t = ''null'' then JNull
         else (let num = Number t
               in if num \<noteq> NaN then JNum num else JStr (stripQuotes t)))"

section \<open>Objects\<close>

text \<open>
  A record of the parser is an object created by \<open>{}\<close>: its own properties in the order
  of their creation, and its prototype, which is \<open>Object.prototype\<close> until an assignment
  to \<open>__proto__\<close> replaces it by \<open>null\<close>.
\<close>

datatype jsobj = Obj (props: "(string \<times> jsval) list") (protoIsNull: bool)

definition emptyObject :: jsobj where
  "emptyObject = Obj [] False"

text \<open>
  The assignment \<open>obj[k] = v\<close> of a primitive value. An own property is overwritten in
  place. Otherwise, while the prototype is \<open>Object.prototype\<close>, the key \<open>__proto__\<close>
  reaches the inherited setter, which sets the prototype to \<open>null\<close> when \<open>v\<close> is \<open>null\<close>
  and ignores every other primitive; any other key creates an own property, after the
  existing ones.
\<close>

fun setProp :: "jsobj \<Rightarrow> string \<Rightarrow> jsval \<Rightarrow> jsobj" where
  "setProp (Obj ps pn) k v =
     (if k \<in> set (map fst ps) then Obj (AList.update k v ps) pn
      else if k = ''__proto__'' \<and> \<not> pn then (if v = JNull then Obj ps True else Obj ps pn)
      else Obj (ps @ [(k, v)]) pn)"

definition getOwn :: "jsobj \<Rightarrow> string \<Rightarrow> jsval option" where
  "getOwn obj k = map_of (props obj) k"

text \<open>
  The own keys of an object, in the order in which \<open>Object.keys\<close>, \<open>for-in\<close> and
  \<open>JSON.stringify\<close> list them: the array indices (canonical decimal numerals below
  \<open>2^32 - 1 = 4294967295\<close>) in ascending order, then the other keys in the order of their creation.
\<close>

definition isArrayIndex :: "string \<Rightarrow> bool" where
  "isArrayIndex k =
     (k \<noteq> [] \<and> list_all isDigit k \<and> (k = ''0'' \<or> hd k \<noteq> CHR ''0'')
      \<and> radixValue 10 k < 4294967295)"

definition ownKeys :: "jsobj \<Rightarrow> string list" where
  "ownKeys obj =
     (let ks = map fst (props obj)
      in sort_key (radixValue 10) (filter isArrayIndex ks) @ filter (\<lambda>k. \<not> isArrayIndex k) ks)"

section \<open>Block Assembler\<close>

text \<open>The tokens of a data line: \<open>line.split(',').map(v => v.trim()).filter(Boolean)\<close>.\<close>

definition tokenize :: "string \<Rightarrow> string list" where
  "tokenize line = filter (\<lambda>v. v \<noteq> []) (map trim (split (CHR '','') line))"

text \<open>\<open>row[j] !== undefined ? row[j] : ''\<close>, for a row of strings.\<close>

definition rowToken :: "string list \<Rightarrow> nat \<Rightarrow> string" where
  "rowToken row j = (if j < length row then row ! j else [])"

text \<open>The record of one data line: the loop over \<open>j\<close> from 0 to the number of fields.\<close>

definition makeRecord :: "string list \<Rightarrow> string \<Rightarrow> jsobj" where
  "makeRecord flds line =
     (let row = tokenize line
      in foldl (\<lambda>obj j. setProp obj (flds ! j) (parseValue (rowToken row j)))
           emptyObject [0..<length flds])"

text \<open>
  The inner loop. The lines from index \<open>i\<close> on are the second argument, the rows pushed
  so far the third; the result is the rows and the lines from the final \<open>i\<close> on.
\<close>

fun readRows :: "string list \<Rightarrow> string list \<Rightarrow> jsobj list \<Rightarrow> jsobj list \<times> string list" where
  "readRows flds [] rows = (rows, [])"
| "readRows flds (l # ls) rows =
     (if isHeader l then (rows, l # ls)
      else readRows flds ls (rows @ [makeRecord flds l]))"

section \<open>Document Parser\<close>

datatype jserror = InvocationError | TypeError

text \<open>A warning on the console: block name, declared count, number of parsed rows.\<close>

datatype diagnostic = CountMismatch string jsnumber nat

text \<open>
  The document is the object \<open>result\<close>: its own properties in the order of their
  creation. Block names are identifiers, so none of them is an array index.
\<close>

type_synonym document = "(string \<times> jsobj list) list"

text \<open>
  The names that \<open>result\<close>, created by \<open>{}\<close>, inherits from \<open>Object.prototype\<close>
  (ECMA-262, 20.1.3 and B.2.2). Under each of them \<open>result[name]\<close> is a function, or
  for \<open>__proto__\<close> the prototype itself: a value that is truthy and has no \<open>concat\<close>.
\<close>

definition objectPrototypeKeys :: "string list" where
  "objectPrototypeKeys =
     [''constructor'', ''hasOwnProperty'', ''isPrototypeOf'', ''propertyIsEnumerable'',
      ''toLocaleString'', ''toString'', ''valueOf'', ''__proto__'', ''__defineGetter__'',
      ''__defineSetter__'', ''__lookupGetter__'', ''__lookupSetter__'']"

text \<open>
  The merge of a block into \<open>result\<close>. If \<open>result[name]\<close> is an own property, it is an
  array and the rows are concatenated to it. If it is inherited, the test
  \<open>!result[name]\<close> is false as well, and the call of \<open>concat\<close> raises a \<open>TypeError\<close>.
  Otherwise \<open>result[name]\<close> is undefined and the assignment creates the property.
\<close>

definition mergeBlock :: "document \<Rightarrow> string \<Rightarrow> jsobj list \<Rightarrow> jserror + document" where
  "mergeBlock result nm rows =
     (case map_of result nm of
        Some old \<Rightarrow> Inr (AList.update nm (old @ rows) result)
      | None \<Rightarrow>
          if nm \<in> set objectPrototypeKeys then Inl TypeError
          else Inr (result @ [(nm, rows)]))"

lemma readRows_length: "readRows flds ls rows = (rows', rest) \<Longrightarrow> length rest \<le> length ls"
proof (induction ls arbitrary: rows)
  case Nil
  then show ?case by simp
next
  case (Cons l ls)
  show ?case
  proof (cases "isHeader l")
    case True
    with Cons.prems show ?thesis by simp
  next
    case False
    with Cons.prems have "readRows flds ls (rows @ [makeRecord flds l]) = (rows', rest)"
      by simp
    then have "length rest \<le> length ls" by (rule Cons.IH)
    then show ?thesis by simp
  qed
qed

text \<open>
  The outer loop, on the lines from index \<open>i\<close> on. \<open>con\<close> says whether the host has a
  console; the warnings emitted so far are threaded through and returned also when the
  loop ends in an exception.
\<close>

function parseLoop ::
  "bool \<Rightarrow> string list \<Rightarrow> document \<Rightarrow> diagnostic list \<Rightarrow> (jserror + document) \<times> diagnostic list"
where
  "parseLoop con [] result diags = (Inr result, diags)"
| "parseLoop con (line # rest) result diags =
     (if \<not> isHeader line then parseLoop con rest result diags
      else
        (case parseHeader line of
           None \<Rightarrow> parseLoop con rest result diags
         | Some h \<Rightarrow>
             (case readRows (hdr_fields h) rest [] of
                (rows, rest') \<Rightarrow>
                  (case mergeBlock result (hdr_name h) rows of
                     Inl e \<Rightarrow> (Inl e, diags)
                   | Inr result' \<Rightarrow>
                       parseLoop con rest' result'
                         (if Finite (of_nat (length rows)) \<noteq> hdr_count h \<and> con
                          then diags @ [CountMismatch (hdr_name h) (hdr_count h) (length rows)]
                          else diags)))))"
  by pat_completeness auto
termination
  by (relation "measure (\<lambda>(con, ls, result, diags). length ls)")
     (auto dest!: readRows_length [OF sym] simp: less_Suc_eq_le)

text \<open>The pre-cleaning of \<open>parseFromString\<close>: trimmed, non-empty, non-comment lines.\<close>

definition normalizeLines :: "string \<Rightarrow> string list" where
  "normalizeLines text =
     filter (\<lambda>l. length l > 0 \<and> \<not> startsWith l ''#'' \<and> \<not> startsWith l ''//'')
       (map trim (split LF text))"

definition parseFromString :: "bool \<Rightarrow> string \<Rightarrow> (jserror + document) \<times> diagnostic list" where
  "parseFromString con text = parseLoop con (normalizeLines text) [] []"

text \<open>
  The argument of \<open>parseFromLines\<close> is an array of strings or a value that is no array;
  arrays with other elements are outside the model.
\<close>

datatype linesArg = NotAnArray | ArrayOfStrings "string list"

definition parseFromLines :: "bool \<Rightarrow> linesArg \<Rightarrow> (jserror + document) \<times> diagnostic list" where
  "parseFromLines con arg =
     (case arg of
        NotAnArray \<Rightarrow> (Inl InvocationError, [])
      | ArrayOfStrings ls \<Rightarrow> parseFromString con (join LF ls))"

section \<open>The language of a pattern\<close>

text \<open>
  What it means for a string to match a pattern from its first to its last character.
  This is the reading of the patterns against which \<open>matches\<close> is checked.
\<close>

inductive_set star :: "string set \<Rightarrow> string set" for A :: "string set" where
  star_empty: "[] \<in> star A"
| star_more: "u \<in> A \<Longrightarrow> v \<in> star A \<Longrightarrow> u @ v \<in> star A"

fun lang :: "rexp \<Rightarrow> string set" where
  "lang Never = {}"
| "lang Eps = {[]}"
| "lang (Cls P) = {[c] | c. P c}"
| "lang (Seq r s) = {u @ v | u v. u \<in> lang r \<and> v \<in> lang s}"
| "lang (Alt r s) = lang r \<union> lang s"
| "lang (Star r) = star (lang r)"

section \<open>The header grammar in words\<close>

text \<open>
  An identifier is a letter or underscore followed by letters, digits and underscores.
  A line has the shape of a header when it is an identifier, an opening bracket, one or
  more digits, a closing bracket, an opening brace, one or more characters other than
  the closing brace, a closing brace and a colon, and nothing else.
\<close>

definition isIdentifier :: "string \<Rightarrow> bool" where
  "isIdentifier n = (n \<noteq> [] \<and> isIdentStart (hd n) \<and> list_all isWordChar (tl n))"

definition headerShape :: "string \<Rightarrow> string \<Rightarrow> string \<Rightarrow> string \<Rightarrow> bool" where
  "headerShape line n d c =
     (line = n @ ''['' @ d @ '']{'' @ c @ ''}:'' \<and> isIdentifier n
      \<and> d \<noteq> [] \<and> list_all isDigit d \<and> c \<noteq> [] \<and> list_all (\<lambda>x. x \<noteq> CHR ''}'') c)"

section \<open>The block structure of a document in words\<close>

text \<open>
  The blocks of a sequence of normalized lines: the lines before the first header belong
  to no block; every header opens a block, whose data lines are the lines up to the next
  header or the end of the input.
\<close>

function blocksOf :: "string list \<Rightarrow> (header \<times> string list) list" where
  "blocksOf [] = []"
| "blocksOf (l # ls) =
     (if isHeader l
      then (case parseHeader l of
              Some h \<Rightarrow> [(h, takeWhile (\<lambda>x. \<not> isHeader x) ls)]
            | None \<Rightarrow> [])
           @ blocksOf (dropWhile (\<lambda>x. \<not> isHeader x) ls)
      else blocksOf ls)"
  by pat_completeness auto
termination
  by (relation "measure length") (auto simp: less_Suc_eq_le length_dropWhile_le)

text \<open>The name of a block and its row set: one record per data line, in line order.\<close>

definition blockRows :: "header \<times> string list \<Rightarrow> string \<times> jsobj list" where
  "blockRows b = (hdr_name (fst b), map (makeRecord (hdr_fields (fst b))) (snd b))"

text \<open>The blocks merged into a document one after the other, up to the first exception.\<close>

fun mergeAll :: "document \<Rightarrow> (string \<times> jsobj list) list \<Rightarrow> jserror + document" where
  "mergeAll result [] = Inr result"
| "mergeAll result (b # bs) =
     (case mergeBlock result (fst b) (snd b) of
        Inl e \<Rightarrow> Inl e
      | Inr result' \<Rightarrow> mergeAll result' bs)"

text \<open>
  A line that the Line Normalizer removes: blank, or a comment. And the relation between
  the lines of a document and the same lines with such lines inserted anywhere.
\<close>

definition isBlankOrComment :: "string \<Rightarrow> bool" where
  "isBlankOrComment l = (trim l = [] \<or> startsWith (trim l) ''#'' \<or> startsWith (trim l) ''//'')"

fun withInsertedLines :: "string list \<Rightarrow> string list \<Rightarrow> bool" where
  "withInsertedLines [] [] = True"
| "withInsertedLines (l # ls) [] = False"
| "withInsertedLines [] (c # cs) = (isBlankOrComment c \<and> withInsertedLines [] cs)"
| "withInsertedLines (l # ls) (c # cs) =
     ((c = l \<and> withInsertedLines ls cs) \<or> (isBlankOrComment c \<and> withInsertedLines (l # ls) cs))"

section \<open>Properties of the patterns\<close>

lemma nullable_lang: "nullable r \<longleftrightarrow> [] \<in> lang r"
  by (induction r) (auto intro: star.star_empty)

lemma star_cons:
  "c # s \<in> star A \<longleftrightarrow> (\<exists>u v. s = u @ v \<and> c # u \<in> A \<and> v \<in> star A)"
proof
  assume "c # s \<in> star A"
  then show "\<exists>u v. s = u @ v \<and> c # u \<in> A \<and> v \<in> star A"
  proof (induction "c # s" rule: star.induct)
    case (star_more u v)
    show ?case
    proof (cases u)
      case Nil
      with star_more show ?thesis by simp
    next
      case (Cons a u')
      with star_more.hyps show ?thesis by auto
    qed
  qed
next
  assume "\<exists>u v. s = u @ v \<and> c # u \<in> A \<and> v \<in> star A"
  then obtain u v where "s = u @ v" "c # u \<in> A" "v \<in> star A" by blast
  then show "c # s \<in> star A"
    using star.star_more [of "c # u" A v] by simp
qed

lemma deriv_lang: "s \<in> lang (deriv c r) \<longleftrightarrow> c # s \<in> lang r"
proof (induction r arbitrary: s)
  case (Seq r1 r2)
  show ?case
  proof (cases "nullable r1")
    case True
    then have n: "[] \<in> lang r1" by (simp add: nullable_lang)
    show ?thesis
    proof
      assume "s \<in> lang (deriv c (Seq r1 r2))"
      with True Seq show "c # s \<in> lang (Seq r1 r2)"
        by (simp, metis append_Cons append_Nil n)
    next
      assume "c # s \<in> lang (Seq r1 r2)"
      then obtain u v where uv: "c # s = u @ v" "u \<in> lang r1" "v \<in> lang r2" by auto
      show "s \<in> lang (deriv c (Seq r1 r2))"
      proof (cases u)
        case Nil
        with uv True Seq show ?thesis by simp
      next
        case (Cons a u')
        with uv True Seq show ?thesis by auto
      qed
    qed
  next
    case False
    then have n: "[] \<notin> lang r1" by (simp add: nullable_lang)
    show ?thesis
    proof
      assume "s \<in> lang (deriv c (Seq r1 r2))"
      with False Seq show "c # s \<in> lang (Seq r1 r2)"
        by (simp, metis append_Cons)
    next
      assume "c # s \<in> lang (Seq r1 r2)"
      then obtain u v where uv: "c # s = u @ v" "u \<in> lang r1" "v \<in> lang r2" by auto
      with n obtain u' where "u = c # u'" "s = u' @ v" by (cases u) auto
      with uv False Seq show "s \<in> lang (deriv c (Seq r1 r2))" by auto
    qed
  qed
next
  case (Star r)
  then show ?case by (simp add: star_cons)
qed auto

lemma matches_lang: "matches r s \<longleftrightarrow> s \<in> lang r"
  by (induction s arbitrary: r) (simp_all add: nullable_lang deriv_lang)

lemma lang_Chr: "lang (Chr c) = {[c]}"
  by (simp add: Chr_def)

lemma star_Cls: "s \<in> star {[c] | c. P c} \<longleftrightarrow> list_all P s"
proof
  assume "s \<in> star {[c] | c. P c}"
  then show "list_all P s" by (induction rule: star.induct) auto
next
  assume "list_all P s"
  then show "s \<in> star {[c] | c. P c}"
  proof (induction s)
    case Nil
    show ?case by (rule star.star_empty)
  next
    case (Cons a s)
    then have "[a] \<in> {[c] | c. P c}" "s \<in> star {[c] | c. P c}" by auto
    then have "[a] @ s \<in> star {[c] | c. P c}" by (rule star.star_more)
    then show ?case by simp
  qed
qed

lemma lang_Star_Cls: "lang (Star (Cls P)) = {s. list_all P s}"
  by (auto simp: star_Cls)

lemma lang_Plus_Cls: "lang (Plus (Cls P)) = {s. s \<noteq> [] \<and> list_all P s}"
proof (rule set_eqI)
  fix s
  show "s \<in> lang (Plus (Cls P)) \<longleftrightarrow> s \<in> {s. s \<noteq> [] \<and> list_all P s}"
  proof (cases s)
    case Nil
    then show ?thesis by (simp add: Plus_def)
  next
    case (Cons a t)
    have "a # t \<in> lang (Plus (Cls P)) \<longleftrightarrow> P a \<and> list_all P t"
    proof
      assume "a # t \<in> lang (Plus (Cls P))"
      then show "P a \<and> list_all P t" by (auto simp: Plus_def star_Cls)
    next
      assume "P a \<and> list_all P t"
      then have "[a] \<in> lang (Cls P)" "t \<in> lang (Star (Cls P))" by (simp_all add: star_Cls)
      then have "[a] @ t \<in> lang (Seq (Cls P) (Star (Cls P)))" by (simp only: lang.simps) blast
      then show "a # t \<in> lang (Plus (Cls P))" by (simp add: Plus_def)
    qed
    with Cons show ?thesis by simp
  qed
qed

section \<open>Properties of the Scalar Coercer\<close>

text \<open>
  A token that starts with a double quote is no keyword and no numeric literal, so it
  reaches the quote stripping.
\<close>

lemma parseValue_quoted:
  "parseValue (DQUOTE # s @ [DQUOTE]) =
     JStr (if list_all (\<lambda>c. \<not> isLineTerminator c) s then s else DQUOTE # s @ [DQUOTE])"
proof -
  let ?t = "DQUOTE # s @ [DQUOTE]"
  have ws: "\<not> isWhiteSpace DQUOTE" by (simp add: isWhiteSpace_def DQUOTE_def)
  have tr: "trim ?t = ?t" using ws by (simp add: trim_def)
  have dg: "\<not> isDigit DQUOTE" by (simp add: isDigit_def DQUOTE_def)
  have nd: "nonDecimalLiteral ?t = None"
    by (cases s) (simp_all add: nonDecimalLiteral_def DQUOTE_def)
  have ud: "unsignedDecimal ?t = None"
    using dg by (simp add: unsignedDecimal_def Let_def DQUOTE_def)
  have sd: "strDecimalLiteral ?t = NaN"
    using ud by (simp add: strDecimalLiteral_def Let_def DQUOTE_def)
  have num: "Number ?t = NaN"
    using tr nd sd by (simp add: Number_def Let_def)
  have m: "matches quotedPattern ?t \<longleftrightarrow> list_all (\<lambda>c. \<not> isLineTerminator c) s"
    by (auto simp: matches_lang quotedPattern_def lang_Chr star_Cls)
  have kw: "?t \<noteq> ''true''" "?t \<noteq> ''false''" "?t \<noteq> ''null''"
    by (simp_all add: DQUOTE_def)
  show ?thesis
    using tr num m kw by (simp add: parseValue_def Let_def stripQuotes_def del: trim_def)
qed

text \<open>
  Claim C2. The claim says that the empty token fails the numeric rule and is coerced to
  a string. In the source \<open>Number('')\<close> is 0, not \<open>NaN\<close>, so the empty token is coerced
  to the number 0: as a token of its own, and as the value of the field \<open>b\<close> that the
  row \<open>1\<close> leaves without a token under the fields \<open>a,b\<close>.
\<close>

theorem parseValue_empty_token_is_zero:
  "parseValue [] = JNum (Finite 0) \<and>
   makeRecord [''a'', ''b''] ''1'' = Obj [(''a'', JNum (Finite 1)), (''b'', JNum (Finite 0))] False"
  by code_simp

text \<open>
  Claim C3, as stated: the token made of a double quote, the word \<open>true\<close> and a double
  quote is coerced to the boolean true. It is not.
\<close>

theorem parseValue_quoted_true_not_boolean:
  "parseValue [DQUOTE, CHR ''t'', CHR ''r'', CHR ''u'', CHR ''e'', DQUOTE] \<noteq> JBool True"
  by code_simp

text \<open>
  Claim C3, amended. The keyword and numeric rules run on the token with its quotes and
  do not match it; the quote stripping then returns the content as a string. So every
  token wrapped in double quotes, with no line terminator between them, is coerced to
  the string between the quotes, \<open>true\<close> included.
\<close>

theorem parseValue_quoted_token_is_string:
  "list_all (\<lambda>c. \<not> isLineTerminator c) s \<Longrightarrow> parseValue (DQUOTE # s @ [DQUOTE]) = JStr s"
  by (simp add: parseValue_quoted)

theorem parseValue_quoted_token_is_string_witness:
  "list_all (\<lambda>c. \<not> isLineTerminator c) ''true'' \<and>
   parseValue (DQUOTE # ''true'' @ [DQUOTE]) = JStr ''true''"
proof -
  have h: "list_all (\<lambda>c. \<not> isLineTerminator c) ''true''"
    by (simp add: isLineTerminator_def)
  show ?thesis
    using h parseValue_quoted_token_is_string [OF h] by simp
qed

section \<open>Properties of the Header Matcher and Decomposer\<close>

lemma lang_headerPattern:
  "s \<in> lang headerPattern \<longleftrightarrow> (\<exists>n d c. headerShape s n d c)"
proof
  assume "s \<in> lang headerPattern"
  then obtain c0 ns ds cs where
    s: "s = [c0] @ ns @ ''['' @ ds @ '']'' @ ''{'' @ cs @ ''}'' @ '':''"
    and c: "isIdentStart c0" "list_all isWordChar ns" "ds \<noteq> []" "list_all isDigit ds"
      "cs \<noteq> []" "list_all (\<lambda>x. x \<noteq> CHR ''}'') cs"
    unfolding headerPattern_def
    by (auto simp: lang_Chr lang_Plus_Cls star_Cls)
  have "headerShape s (c0 # ns) ds cs"
    using s c by (simp add: headerShape_def isIdentifier_def)
  then show "\<exists>n d c. headerShape s n d c" by blast
next
  assume "\<exists>n d c. headerShape s n d c"
  then obtain n d c where h: "headerShape s n d c" by blast
  then obtain c0 ns where n: "n = c0 # ns" by (cases n) (auto simp: headerShape_def isIdentifier_def)
  have 1: "[c0] \<in> lang (Cls isIdentStart)" using h n by (simp add: headerShape_def isIdentifier_def)
  have 2: "ns \<in> lang (Star (Cls isWordChar))" using h n by (simp add: headerShape_def isIdentifier_def star_Cls)
  have 3: "d \<in> lang (Plus (Cls isDigit))" using h by (simp add: headerShape_def lang_Plus_Cls)
  have 4: "c \<in> lang (Plus (Cls (\<lambda>x. x \<noteq> CHR ''}'')))" using h by (simp add: headerShape_def lang_Plus_Cls)
  have s: "s = [c0] @ ns @ ''['' @ d @ '']'' @ ''{'' @ c @ ''}'' @ '':''"
    using h n by (simp add: headerShape_def)
  have seq: "\<And>u v r1 r2. u \<in> lang r1 \<Longrightarrow> v \<in> lang r2 \<Longrightarrow> u @ v \<in> lang (Seq r1 r2)"
    by auto
  have "[c0] @ ns @ ''['' @ d @ '']'' @ ''{'' @ c @ ''}'' @ '':'' \<in> lang headerPattern"
    unfolding headerPattern_def
    by (intro seq 1 2 3 4) (simp_all add: lang_Chr)
  with s show "s \<in> lang headerPattern" by simp
qed

lemma run_then_stop:
  "list_all P xs \<Longrightarrow> \<not> P y \<Longrightarrow>
     takeWhile P (xs @ y # ys) = xs \<and> dropWhile P (xs @ y # ys) = y # ys"
  by (induction xs) auto

lemma isIdentStart_word: "isIdentStart c \<Longrightarrow> isWordChar c"
  by (simp add: isWordChar_def)

lemma digit_not_space: "isDigit c \<Longrightarrow> \<not> isWhiteSpace c"
  by (auto simp: isDigit_def isWhiteSpace_def)

lemma parseInt10_digits:
  assumes "d \<noteq> []" "list_all isDigit d"
  shows "parseInt10 d = Finite (of_nat (radixValue 10 d))"
proof -
  from assms have dx: "isDigit (hd d)" by (cases d) auto
  have ws: "dropWhile isWhiteSpace d = d"
    using assms(1) dx by (cases d) (simp_all add: digit_not_space)
  have sg: "hd d \<noteq> CHR ''-''" "hd d \<noteq> CHR ''+''" using dx by (auto simp: isDigit_def)
  have tw: "takeWhile isDigit d = d" using assms(2) by (simp add: list_all_iff)
  have u: "(if d \<noteq> [] \<and> (hd d = CHR ''-'' \<or> hd d = CHR ''+'') then tl d else d) = d"
    using sg by simp
  show ?thesis
    unfolding parseInt10_def Let_def ws u tw using sg assms(1) by simp
qed

lemma parseHeader_shape:
  assumes "headerShape line n d c"
  shows "parseHeader line =
     Some \<lparr>hdr_name = n, hdr_count = Finite (of_nat (radixValue 10 d)),
           hdr_fields = filter (\<lambda>f. f \<noteq> []) (map trim (split (CHR '','') c))\<rparr>"
proof -
  from assms have line: "line = n @ CHR ''['' # d @ CHR '']'' # CHR ''{'' # c @ CHR ''}'' # '':''"
    and d: "d \<noteq> []" "list_all isDigit d" and c: "list_all (\<lambda>x. x \<noteq> CHR ''}'') c"
    and idn: "isIdentifier n"
    by (simp_all add: headerShape_def)
  from idn have wn: "list_all isWordChar n"
    by (cases n) (simp_all add: isIdentifier_def isIdentStart_word)
  have nb: "\<not> isWordChar (CHR ''['')" by (simp add: isWordChar_def isIdentStart_def isDigit_def)
  have nd: "\<not> isDigit (CHR '']'')" by (simp add: isDigit_def)
  have m: "matches headerPattern line"
    using assms by (auto simp: matches_lang lang_headerPattern)
  have t1: "takeWhile isWordChar line = n"
    and d1: "dropWhile isWordChar line = CHR ''['' # d @ CHR '']'' # CHR ''{'' # c @ CHR ''}'' # '':''"
    using run_then_stop [OF wn nb] line by simp_all
  have t2: "takeWhile isDigit (d @ CHR '']'' # CHR ''{'' # c @ CHR ''}'' # '':'') = d"
    and d2: "dropWhile isDigit (d @ CHR '']'' # CHR ''{'' # c @ CHR ''}'' # '':'') = CHR '']'' # CHR ''{'' # c @ CHR ''}'' # '':''"
    using run_then_stop [OF d(2) nd] by simp_all
  have t3: "takeWhile (\<lambda>x. x \<noteq> CHR ''}'') (c @ CHR ''}'' # '':'') = c"
    using run_then_stop [OF c, of "CHR ''}''"] by simp
  show ?thesis
    using m t1 d1 t2 d2 t3 parseInt10_digits [OF d]
    by (simp add: parseHeader_def Let_def)
qed

text \<open>
  Claim C7. A line is classified as a header exactly when it has the shape of a header;
  and on every line of that shape the decomposition succeeds: the name is the
  identifier, the count is the value of the digits in base 10, and the fields are the
  pieces of the brace content between commas, trimmed, without the empty ones, which
  may leave no field at all.
\<close>

theorem header_classification_and_decomposition:
  "(isHeader line \<longleftrightarrow> (\<exists>n d c. headerShape line n d c)) \<and>
   (\<forall>n d c. headerShape line n d c \<longrightarrow>
      parseHeader line =
        Some \<lparr>hdr_name = n, hdr_count = Finite (of_nat (radixValue 10 d)),
              hdr_fields = filter (\<lambda>f. f \<noteq> []) (map trim (split (CHR '','') c))\<rparr>)"
  by (simp add: isHeader_def matches_lang lang_headerPattern parseHeader_shape)

theorem header_classification_and_decomposition_witness:
  "headerShape ''t[12]{,}:'' ''t'' ''12'' '','' \<and> isHeader ''t[12]{,}:'' \<and>
   parseHeader ''t[12]{,}:'' = Some \<lparr>hdr_name = ''t'', hdr_count = Finite 12, hdr_fields = []\<rparr>"
proof -
  have h: "headerShape ''t[12]{,}:'' ''t'' ''12'' '',''"
    by (simp add: headerShape_def isIdentifier_def isIdentStart_def isDigit_def)
  have v: "radixValue 10 ''12'' = 12"
    by (simp add: radixValue_def digitValue_def isDigit_def)
  have f: "filter (\<lambda>f. f \<noteq> []) (map trim (split (CHR '','') '','')) = []"
    by (simp add: trim_def)
  from header_classification_and_decomposition [of "''t[12]{,}:''"] h
  have "isHeader ''t[12]{,}:''"
    and "parseHeader ''t[12]{,}:'' =
      Some \<lparr>hdr_name = ''t'', hdr_count = Finite (of_nat (radixValue 10 ''12'')),
            hdr_fields = filter (\<lambda>f. f \<noteq> []) (map trim (split (CHR '','') '',''))\<rparr>"
    by blast+
  with h v f show ?thesis by simp
qed

section \<open>Properties of the Block Assembler\<close>

lemma split_not_Nil: "split sep s \<noteq> []"
  by (induction s) (auto split: list.splits)

lemma split_append_sep: "split sep (a @ sep # b) = split sep a @ split sep b"
proof (induction a)
  case Nil
  show ?case by simp
next
  case (Cons c a)
  obtain p ps where ps: "split sep a = p # ps"
    using split_not_Nil [of sep a] by (cases "split sep a") auto
  with Cons show ?case by simp
qed

lemma split_no_sep: "sep \<notin> set p \<Longrightarrow> split sep p = [p]"
  by (induction p) auto

lemma tokenize_append_comma: "tokenize (a @ '','' @ b) = tokenize a @ tokenize b"
  by (simp add: tokenize_def split_append_sep)

lemma tokenize_piece:
  "CHR '','' \<notin> set p \<Longrightarrow> tokenize p = (if trim p = [] then [] else [trim p])"
  by (simp add: tokenize_def split_no_sep)

lemma makeRecord_snoc:
  "makeRecord (flds @ [f]) line =
     setProp (makeRecord flds line) f (parseValue (rowToken (tokenize line) (length flds)))"
proof -
  have "foldl (\<lambda>obj j. setProp obj ((flds @ [f]) ! j) (parseValue (rowToken (tokenize line) j)))
          emptyObject [0..<length flds]
      = foldl (\<lambda>obj j. setProp obj (flds ! j) (parseValue (rowToken (tokenize line) j)))
          emptyObject [0..<length flds]"
    by (rule foldl_cong) (simp_all add: nth_append)
  then show ?thesis by (simp add: makeRecord_def Let_def)
qed

lemma makeRecord_Nil: "makeRecord [] line = emptyObject"
  by (simp add: makeRecord_def)

lemma keys_setProp:
  "map fst (props (setProp obj k v)) =
     (if k \<in> set (map fst (props obj)) \<or> (k = ''__proto__'' \<and> \<not> protoIsNull obj)
      then map fst (props obj) else map fst (props obj) @ [k])"
  by (cases obj) (auto simp: update_keys)

lemma protoIsNull_setProp:
  "k \<noteq> ''__proto__'' \<Longrightarrow> protoIsNull (setProp obj k v) = protoIsNull obj"
  by (cases obj) auto

lemma getOwn_setProp_other:
  "k' \<noteq> k \<Longrightarrow> getOwn (setProp obj k v) k' = getOwn obj k'"
  by (cases obj) (auto simp: getOwn_def update_conv' map_add_def split: option.splits)

lemma getOwn_setProp_same:
  "k \<noteq> ''__proto__'' \<Longrightarrow> getOwn (setProp obj k v) k = Some v"
  by (cases obj)
    (auto simp: getOwn_def update_conv' map_add_def map_of_eq_None_iff [symmetric]
       simp del: map_of_eq_None_iff split: option.splits)

lemma makeRecord_keys:
  "''__proto__'' \<notin> set flds \<Longrightarrow>
     map fst (props (makeRecord flds line)) = rev (remdups (rev flds)) \<and>
     \<not> protoIsNull (makeRecord flds line)"
proof (induction flds rule: rev_induct)
  case Nil
  show ?case by (simp add: makeRecord_Nil emptyObject_def)
next
  case (snoc f flds)
  then show ?case
    by (auto simp: makeRecord_snoc keys_setProp protoIsNull_setProp)
qed

lemma makeRecord_value:
  "k \<noteq> ''__proto__'' \<Longrightarrow> k \<in> set flds \<Longrightarrow>
     \<exists>j<length flds. flds ! j = k \<and> k \<notin> set (drop (Suc j) flds) \<and>
        getOwn (makeRecord flds line) k = Some (parseValue (rowToken (tokenize line) j))"
proof (induction flds rule: rev_induct)
  case Nil
  then show ?case by simp
next
  case (snoc f flds)
  show ?case
  proof (cases "f = k")
    case True
    with snoc.prems show ?thesis
      by (intro exI [of _ "length flds"]) (simp add: makeRecord_snoc getOwn_setProp_same)
  next
    case False
    with snoc.prems have "k \<in> set flds" by simp
    with snoc.IH snoc.prems obtain j where j: "j < length flds" "flds ! j = k"
      "k \<notin> set (drop (Suc j) flds)"
      "getOwn (makeRecord flds line) k = Some (parseValue (rowToken (tokenize line) j))"
      by blast
    with False show ?thesis
      by (intro exI [of _ j]) (simp add: makeRecord_snoc getOwn_setProp_other nth_append)
  qed
qed

lemma last_occurrence_unique:
  assumes "i < length xs" "j < length xs" "xs ! i = k" "xs ! j = k"
    "k \<notin> set (drop (Suc i) xs)" "k \<notin> set (drop (Suc j) xs)"
  shows "i = j"
proof (rule ccontr)
  assume "i \<noteq> j"
  then consider "i < j" | "j < i" by linarith
  then show False
  proof cases
    case 1
    then have "xs ! j \<in> set (drop (Suc i) xs)"
      using assms(2) by (auto simp: in_set_conv_nth intro!: exI [of _ "j - Suc i"])
    with assms show False by simp
  next
    case 2
    then have "xs ! i \<in> set (drop (Suc j) xs)"
      using assms(1) by (auto simp: in_set_conv_nth intro!: exI [of _ "i - Suc j"])
    with assms show False by simp
  qed
qed

lemma makeRecord_value_at:
  assumes "j < length flds" "flds ! j \<noteq> ''__proto__''" "flds ! j \<notin> set (drop (Suc j) flds)"
  shows "getOwn (makeRecord flds line) (flds ! j) = Some (parseValue (rowToken (tokenize line) j))"
proof -
  have "flds ! j \<in> set flds" using assms(1) by simp
  from makeRecord_value [OF assms(2) this, of line]
  obtain i where i: "i < length flds" "flds ! i = flds ! j" "flds ! j \<notin> set (drop (Suc i) flds)"
    "getOwn (makeRecord flds line) (flds ! j) = Some (parseValue (rowToken (tokenize line) i))"
    by blast
  have "i = j"
    using last_occurrence_unique [OF i(1) assms(1) i(2) refl i(3) assms(3)] .
  with i show ?thesis by simp
qed

lemma makeRecord_value_missing:
  assumes "j < length flds" "flds ! j \<noteq> ''__proto__''" "length (tokenize line) \<le> j"
  shows "getOwn (makeRecord flds line) (flds ! j) = Some (parseValue [])"
proof -
  have "flds ! j \<in> set flds" using assms(1) by simp
  from makeRecord_value [OF assms(2) this, of line]
  obtain i where i: "i < length flds" "flds ! i = flds ! j" "flds ! j \<notin> set (drop (Suc i) flds)"
    "getOwn (makeRecord flds line) (flds ! j) = Some (parseValue (rowToken (tokenize line) i))"
    by blast
  have "j \<le> i"
  proof (rule ccontr)
    assume "\<not> j \<le> i"
    then have "i < j" by simp
    then have "flds ! j \<in> set (drop (Suc i) flds)"
      using assms(1) by (auto simp: in_set_conv_nth intro!: exI [of _ "j - Suc i"])
    with i show False by simp
  qed
  with assms(3) have "rowToken (tokenize line) i = []" by (simp add: rowToken_def)
  with i show ?thesis by simp
qed

lemma ownKeys_set: "set (ownKeys obj) = set (map fst (props obj))"
  by (auto simp: ownKeys_def Let_def)

lemma ownKeys_no_index:
  "\<forall>k\<in>set (map fst (props obj)). \<not> isArrayIndex k \<Longrightarrow> ownKeys obj = map fst (props obj)"
  by (simp add: ownKeys_def Let_def filter_empty_conv filter_id_conv)

lemma ownKeys_distinct: "distinct (map fst (props obj)) \<Longrightarrow> distinct (ownKeys obj)"
  by (auto simp: ownKeys_def Let_def)

text \<open>
  Claim C1, as stated: the row \<open>1,,3\<close> keeps its empty middle segment, so that under
  the fields \<open>a,b,c\<close> the empty token goes to \<open>b\<close> and \<open>3\<close> to \<open>c\<close>. In the source the
  filter removes that segment: the row has the two tokens \<open>1\<close> and \<open>3\<close>, \<open>b\<close> receives
  \<open>3\<close> and \<open>c\<close> the empty token.
\<close>

theorem row_keeps_no_empty_middle_segment:
  "tokenize ''1,,3'' \<noteq> [''1'', [], ''3''] \<and>
   getOwn (makeRecord [''a'', ''b'', ''c''] ''1,,3'') ''b'' \<noteq> Some (parseValue []) \<and>
   getOwn (makeRecord [''a'', ''b'', ''c''] ''1,,3'') ''c'' \<noteq> Some (parseValue ''3'')"
  by code_simp

text \<open>
  Claim C1, amended. The tokens of a row are its pieces between commas, trimmed, without
  every piece that is empty after trimming, wherever it stands: the tokens of two parts
  joined by a comma are the tokens of the first followed by those of the second, and a
  part without comma is one token, or none when it is blank. Field \<open>j\<close> (a name other
  than \<open>__proto__\<close> that is not repeated later in the header) receives the coercion of
  token \<open>j\<close> of what remains, and the empty token stands in where fewer remain.
\<close>

theorem tokens_are_the_nonempty_trimmed_pieces:
  "tokenize (a @ '','' @ b) = tokenize a @ tokenize b \<and>
   (CHR '','' \<notin> set p \<longrightarrow> tokenize p = (if trim p = [] then [] else [trim p])) \<and>
   (j < length flds \<and> flds ! j \<noteq> ''__proto__'' \<and> flds ! j \<notin> set (drop (Suc j) flds) \<longrightarrow>
      getOwn (makeRecord flds line) (flds ! j) =
        Some (parseValue (rowToken (tokenize line) j))) \<and>
   (length (tokenize line) \<le> j \<longrightarrow> rowToken (tokenize line) j = [])"
  using tokenize_append_comma [of a b]
  by (simp add: tokenize_piece makeRecord_value_at rowToken_def)

theorem tokens_are_the_nonempty_trimmed_pieces_witness:
  "tokenize ''1,,3'' = [''1'', ''3''] \<and>
   getOwn (makeRecord [''a'', ''b'', ''c''] ''1,,3'') ''b'' = Some (parseValue ''3'') \<and>
   getOwn (makeRecord [''a'', ''b'', ''c''] ''1,,3'') ''c'' = Some (parseValue [])"
proof -
  let ?F = "[''a'', ''b'', ''c'']"
  have t1: "tokenize ''1'' = [''1'']" and t0: "tokenize [] = []" and t3: "tokenize ''3'' = [''3'']"
    using tokens_are_the_nonempty_trimmed_pieces [of "[]" "[]" "''1''" 0 "[]" "[]"]
      tokens_are_the_nonempty_trimmed_pieces [of "[]" "[]" "[]" 0 "[]" "[]"]
      tokens_are_the_nonempty_trimmed_pieces [of "[]" "[]" "''3''" 0 "[]" "[]"]
    by (simp_all add: trim_def isWhiteSpace_def)
  have t03: "tokenize '',3'' = [''3'']"
    using tokens_are_the_nonempty_trimmed_pieces [of "[]" "''3''" "[]" 0 "[]" "[]"] t0 t3
    by simp
  have t: "tokenize ''1,,3'' = [''1'', ''3'']"
    using tokens_are_the_nonempty_trimmed_pieces [of "''1''" "'',3''" "[]" 0 "[]" "[]"] t1 t03
    by simp
  have b: "getOwn (makeRecord ?F ''1,,3'') ''b'' = Some (parseValue ''3'')"
    using tokens_are_the_nonempty_trimmed_pieces [of "[]" "[]" "[]" 1 ?F "''1,,3''"] t
    by (simp add: rowToken_def)
  have c: "getOwn (makeRecord ?F ''1,,3'') ''c'' = Some (parseValue [])"
    using tokens_are_the_nonempty_trimmed_pieces [of "[]" "[]" "[]" 2 ?F "''1,,3''"] t
    by simp
  from t b c show ?thesis by simp
qed

text \<open>
  Claim C4, as stated: every record has exactly the fields of the header as its keys, in
  the header's order. Under the header fields \<open>__proto__\<close>, \<open>b\<close>, \<open>1\<close> the record of the
  row \<open>7,8,9\<close> has the keys \<open>1\<close>, \<open>b\<close>, in this order.
\<close>

theorem record_keys_not_always_header_fields:
  "ownKeys (makeRecord [''__proto__'', ''b'', ''1''] ''7,8,9'') = [''1'', ''b''] \<and>
   ownKeys (makeRecord [''__proto__'', ''b'', ''1''] ''7,8,9'') \<noteq> [''__proto__'', ''b'', ''1'']"
proof -
  have r: "makeRecord [''__proto__'', ''b'', ''1''] ''7,8,9'' =
      Obj [(''b'', JNum (Finite 8)), (''1'', JNum (Finite 9))] False"
    by code_simp
  have k: "ownKeys (Obj [(''b'', JNum (Finite 8)), (''1'', JNum (Finite 9))] False) = [''1'', ''b'']"
    by (simp add: ownKeys_def isArrayIndex_def isDigit_def radixValue_def digitValue_def)
  show ?thesis
    unfolding r k by simp
qed

text \<open>
  Claim C4, amended. When no field of the header is named \<open>__proto__\<close>, the keys of the
  record of a data line are exactly the fields of the header, each once; they are listed
  in the header's order when the fields are distinct and none of them is an array index;
  and a field at a position for which the row has no token is a key all the same, with
  the coercion of the empty token as its value.
\<close>

theorem record_keys_are_header_fields:
  "''__proto__'' \<notin> set flds \<Longrightarrow>
     set (ownKeys (makeRecord flds line)) = set flds \<and>
     distinct (ownKeys (makeRecord flds line)) \<and>
     (distinct flds \<and> (\<forall>f\<in>set flds. \<not> isArrayIndex f) \<longrightarrow>
        ownKeys (makeRecord flds line) = flds) \<and>
     (\<forall>j. length (tokenize line) \<le> j \<and> j < length flds \<longrightarrow>
        getOwn (makeRecord flds line) (flds ! j) = Some (parseValue []))"
proof -
  assume np: "''__proto__'' \<notin> set flds"
  then have k: "map fst (props (makeRecord flds line)) = rev (remdups (rev flds))"
    by (simp add: makeRecord_keys)
  have 1: "set (ownKeys (makeRecord flds line)) = set flds"
    by (simp only: ownKeys_set k) simp
  have 2: "distinct (ownKeys (makeRecord flds line))"
    by (rule ownKeys_distinct) (simp add: k)
  have 3: "ownKeys (makeRecord flds line) = flds"
    if "distinct flds" "\<forall>f\<in>set flds. \<not> isArrayIndex f"
  proof -
    from that(1) have "rev (remdups (rev flds)) = flds" by (simp add: distinct_remdups_id)
    with k that(2) show ?thesis by (simp add: ownKeys_no_index)
  qed
  have 4: "getOwn (makeRecord flds line) (flds ! j) = Some (parseValue [])"
    if "length (tokenize line) \<le> j" "j < length flds" for j
  proof -
    from np that(2) have "flds ! j \<noteq> ''__proto__''" by (metis nth_mem)
    from makeRecord_value_missing [OF that(2) this that(1)] show ?thesis .
  qed
  from 1 2 3 4 show ?thesis by blast
qed

theorem record_keys_are_header_fields_witness:
  "''__proto__'' \<notin> set [''x'', ''y''] \<and>
   ownKeys (makeRecord [''x'', ''y''] ''5'') = [''x'', ''y''] \<and>
   getOwn (makeRecord [''x'', ''y''] ''5'') ''y'' = Some (parseValue [])"
proof -
  have h: "''__proto__'' \<notin> set [''x'', ''y'']" by simp
  have d: "distinct [''x'', ''y''] \<and> (\<forall>f\<in>set [''x'', ''y'']. \<not> isArrayIndex f)"
    by (simp add: isArrayIndex_def isDigit_def)
  have t: "length (tokenize ''5'') \<le> 1 \<and> 1 < length [''x'', ''y'']"
    by (simp add: tokenize_def trim_def isWhiteSpace_def)
  from record_keys_are_header_fields [OF h, of "''5''"] d t
  have "ownKeys (makeRecord [''x'', ''y''] ''5'') = [''x'', ''y'']"
    and "getOwn (makeRecord [''x'', ''y''] ''5'') ([''x'', ''y''] ! 1) = Some (parseValue [])"
    by blast+
  with h show ?thesis by simp
qed

section \<open>Properties of the Document Parser\<close>

lemma readRows_eq:
  "readRows flds ls rows =
     (rows @ map (makeRecord flds) (takeWhile (\<lambda>x. \<not> isHeader x) ls),
      dropWhile (\<lambda>x. \<not> isHeader x) ls)"
  by (induction ls arbitrary: rows) simp_all

lemma isHeader_parseHeader: "isHeader l \<Longrightarrow> \<exists>h. parseHeader l = Some h"
  by (simp add: isHeader_def parseHeader_def Let_def)

lemma blockRows_pair:
  "blockRows (h, ls) = (hdr_name h, map (makeRecord (hdr_fields h)) ls)"
  by (simp add: blockRows_def)

lemma parseLoop_blocks:
  "fst (parseLoop con ls result diags) = mergeAll result (map blockRows (blocksOf ls))"
proof (induction con ls result diags rule: parseLoop.induct)
  case (1 con result diags)
  show ?case by simp
next
  case (2 con line rest result diags)
  show ?case
  proof (cases "isHeader line")
    case False
    with 2 show ?thesis by simp
  next
    case True
    then obtain h where h: "parseHeader line = Some h"
      using isHeader_parseHeader by blast
    let ?rows = "map (makeRecord (hdr_fields h)) (takeWhile (\<lambda>x. \<not> isHeader x) rest)"
    let ?rest = "dropWhile (\<lambda>x. \<not> isHeader x) rest"
    have rr: "readRows (hdr_fields h) rest [] = (?rows, ?rest)"
      by (simp add: readRows_eq)
    show ?thesis
    proof (cases "mergeBlock result (hdr_name h) ?rows")
      case (Inl e)
      with True h rr show ?thesis by (simp add: blockRows_pair)
    next
      case (Inr result')
      let ?d = "if Finite (of_nat (length ?rows)) \<noteq> hdr_count h \<and> con
                then diags @ [CountMismatch (hdr_name h) (hdr_count h) (length ?rows)]
                else diags"
      have "fst (parseLoop con ?rest result' ?d) = mergeAll result' (map blockRows (blocksOf ?rest))"
      proof -
        have nn: "\<not> \<not> isHeader line" using True by simp
        show ?thesis by (rule "2.IH"(3) [OF nn h rr [symmetric] Inr])
      qed
      with True h rr Inr show ?thesis by (simp add: blockRows_pair)
    qed
  qed
qed

lemma parseHeader_isHeader: "parseHeader l = Some h \<Longrightarrow> isHeader l"
  by (simp add: isHeader_def parseHeader_def split: if_splits)

lemma mergeBlock_lookup:
  "mergeBlock result nm rows = Inr r' \<Longrightarrow>
     map_of r' k =
       (if k = nm then Some ((case map_of result nm of Some old \<Rightarrow> old | None \<Rightarrow> []) @ rows)
        else map_of result k)"
  by (auto simp: mergeBlock_def update_conv' map_add_def split: option.splits if_splits)

lemma mergeBlock_keys:
  assumes "mergeBlock result nm rows = Inr r'"
  shows "map fst r' = (if nm \<in> set (map fst result) then map fst result else map fst result @ [nm])"
proof (cases "map_of result nm")
  case None
  then have "nm \<notin> set (map fst result)" by (simp add: map_of_eq_None_iff)
  moreover from assms None have "r' = result @ [(nm, rows)]"
    by (simp add: mergeBlock_def split: if_splits)
  ultimately show ?thesis by simp
next
  case (Some old)
  then have "nm \<in> set (map fst result)"
    by (metis map_of_eq_None_iff option.distinct(1) set_map)
  moreover from assms Some have "r' = AList.update nm (old @ rows) result"
    by (simp add: mergeBlock_def)
  ultimately show ?thesis by (simp add: update_keys)
qed

lemma mergeBlock_empty:
  assumes "mergeBlock result nm [] = Inr r'"
  shows "r' = (if nm \<in> set (map fst result) then result else result @ [(nm, [])])"
proof (cases "map_of result nm")
  case None
  then have "nm \<notin> set (map fst result)" by (simp add: map_of_eq_None_iff)
  moreover from assms None have "r' = result @ [(nm, [])]"
    by (simp add: mergeBlock_def split: if_splits)
  ultimately show ?thesis by simp
next
  case (Some old)
  then have "nm \<in> set (map fst result)"
    by (metis map_of_eq_None_iff option.distinct(1) set_map)
  moreover from assms Some have "r' = AList.update nm old result"
    by (simp add: mergeBlock_def)
  ultimately show ?thesis using Some by (simp add: update_triv)
qed

lemma mergeBlock_rows:
  assumes "mergeBlock result nm rows = Inr r'"
  shows "(case map_of r' k of Some v \<Rightarrow> v | None \<Rightarrow> []) =
     (case map_of result k of Some v \<Rightarrow> v | None \<Rightarrow> []) @ (if k = nm then rows else [])"
  using mergeBlock_lookup [OF assms, of k] by (simp split: option.splits)

lemma mergeAll_rows:
  "mergeAll result bs = Inr doc \<Longrightarrow>
     (case map_of doc k of Some v \<Rightarrow> v | None \<Rightarrow> []) =
       (case map_of result k of Some v \<Rightarrow> v | None \<Rightarrow> [])
       @ concat (map snd (filter (\<lambda>b. fst b = k) bs))"
proof (induction bs arbitrary: result)
  case Nil
  then show ?case by simp
next
  case (Cons b bs)
  from Cons.prems obtain r' where m: "mergeBlock result (fst b) (snd b) = Inr r'"
    and rest: "mergeAll r' bs = Inr doc"
    by (auto split: sum.splits)
  have "(case map_of doc k of Some v \<Rightarrow> v | None \<Rightarrow> []) =
      (case map_of r' k of Some v \<Rightarrow> v | None \<Rightarrow> [])
      @ concat (map snd (filter (\<lambda>b. fst b = k) bs))"
    by (rule Cons.IH [OF rest])
  also have "(case map_of r' k of Some v \<Rightarrow> v | None \<Rightarrow> []) =
      (case map_of result k of Some v \<Rightarrow> v | None \<Rightarrow> []) @ (if k = fst b then snd b else [])"
    by (rule mergeBlock_rows [OF m])
  finally show ?case by simp
qed

lemma mergeAll_keys:
  "mergeAll result bs = Inr doc \<Longrightarrow> set (map fst doc) = set (map fst result) \<union> fst ` set bs"
proof (induction bs arbitrary: result)
  case Nil
  then show ?case by simp
next
  case (Cons b bs)
  from Cons.prems obtain r' where m: "mergeBlock result (fst b) (snd b) = Inr r'"
    and rest: "mergeAll r' bs = Inr doc"
    by (auto split: sum.splits)
  from mergeBlock_keys [OF m] have "set (map fst r') = insert (fst b) (set (map fst result))"
    by (auto split: if_splits)
  with Cons.IH [OF rest] show ?case by auto
qed

lemma parseFromString_blocks:
  "fst (parseFromString con text) =
     mergeAll [] (map blockRows (blocksOf (normalizeLines text)))"
  by (simp add: parseFromString_def parseLoop_blocks)

lemma blocksOf_header:
  "parseHeader l = Some h \<Longrightarrow>
     blocksOf (l # ls) =
       (h, takeWhile (\<lambda>x. \<not> isHeader x) ls) # blocksOf (dropWhile (\<lambda>x. \<not> isHeader x) ls)"
  by (simp add: parseHeader_isHeader)

lemma blocksOf_swap_header:
  assumes "parseHeader l1 = Some h1" "parseHeader l2 = Some h2"
    and "hdr_name h1 = hdr_name h2" "hdr_fields h1 = hdr_fields h2"
  shows "map blockRows (blocksOf (pre @ l1 # post)) = map blockRows (blocksOf (pre @ l2 # post))"
proof (induction pre rule: length_induct)
  case (1 pre)
  have h1: "isHeader l1" and h2: "isHeader l2"
    using assms by (simp_all add: parseHeader_isHeader)
  show ?case
  proof (cases pre)
    case Nil
    then show ?thesis
      using assms by (simp add: blocksOf_header blockRows_pair del: blocksOf.simps)
  next
    case (Cons p ps)
    show ?thesis
    proof (cases "isHeader p")
      case False
      have "length ps < length pre" using Cons by simp
      with 1 have "map blockRows (blocksOf (ps @ l1 # post)) = map blockRows (blocksOf (ps @ l2 # post))"
        by blast
      with Cons False show ?thesis by simp
    next
      case True
      let ?d = "dropWhile (\<lambda>x. \<not> isHeader x) ps"
      have t: "takeWhile (\<lambda>x. \<not> isHeader x) (ps @ l1 # post) = takeWhile (\<lambda>x. \<not> isHeader x) ps"
        "takeWhile (\<lambda>x. \<not> isHeader x) (ps @ l2 # post) = takeWhile (\<lambda>x. \<not> isHeader x) ps"
        using h1 h2 by (simp_all add: takeWhile_tail)
      have d: "dropWhile (\<lambda>x. \<not> isHeader x) (ps @ l1 # post) = ?d @ l1 # post"
        "dropWhile (\<lambda>x. \<not> isHeader x) (ps @ l2 # post) = ?d @ l2 # post"
        using h1 h2 by (simp_all add: dropWhile_append3)
      have "length ?d < length pre"
        using Cons length_dropWhile_le [of "\<lambda>x. \<not> isHeader x" ps] by simp
      with 1 have "map blockRows (blocksOf (?d @ l1 # post)) = map blockRows (blocksOf (?d @ l2 # post))"
        by blast
      moreover from True obtain hp where "parseHeader p = Some hp"
        using isHeader_parseHeader by blast
      ultimately show ?thesis
        using Cons t d by (simp add: blocksOf_header del: blocksOf.simps)
    qed
  qed
qed

text \<open>
  Claim C6. The rows of a block are the records of the lines up to the next header or
  the end of the input, one per line, whatever count the header declares. Two header
  lines that differ only in the declared count lead to the same outcome of the parse,
  so a mismatch neither raises an error nor changes a row list; what it changes is the
  list of warnings, by the one entry that the loop appends before it goes on.
\<close>

theorem row_count_is_lines_consumed:
  "readRows flds ls [] =
     (map (makeRecord flds) (takeWhile (\<lambda>x. \<not> isHeader x) ls), dropWhile (\<lambda>x. \<not> isHeader x) ls) \<and>
   length (fst (readRows flds ls [])) = length (takeWhile (\<lambda>x. \<not> isHeader x) ls) \<and>
   (parseHeader l1 = Some h1 \<and> parseHeader l2 = Some h2 \<and>
    hdr_name h1 = hdr_name h2 \<and> hdr_fields h1 = hdr_fields h2 \<longrightarrow>
      fst (parseLoop con (pre @ l1 # post) result diags) =
      fst (parseLoop con (pre @ l2 # post) result diags')) \<and>
   (parseHeader l = Some h \<and>
    mergeBlock result (hdr_name h)
      (map (makeRecord (hdr_fields h)) (takeWhile (\<lambda>x. \<not> isHeader x) rest)) = Inr r' \<longrightarrow>
      parseLoop con (l # rest) result diags =
      parseLoop con (dropWhile (\<lambda>x. \<not> isHeader x) rest) r'
        (if Finite (of_nat (length (takeWhile (\<lambda>x. \<not> isHeader x) rest))) \<noteq> hdr_count h \<and> con
         then diags @ [CountMismatch (hdr_name h) (hdr_count h)
                         (length (takeWhile (\<lambda>x. \<not> isHeader x) rest))]
         else diags))"
proof -
  have a: "readRows flds ls [] =
     (map (makeRecord flds) (takeWhile (\<lambda>x. \<not> isHeader x) ls), dropWhile (\<lambda>x. \<not> isHeader x) ls)"
    by (simp add: readRows_eq)
  have b: "length (fst (readRows flds ls [])) = length (takeWhile (\<lambda>x. \<not> isHeader x) ls)"
    by (simp add: readRows_eq)
  have c: "fst (parseLoop con (pre @ l1 # post) result diags) =
      fst (parseLoop con (pre @ l2 # post) result diags')"
    if "parseHeader l1 = Some h1" "parseHeader l2 = Some h2"
      "hdr_name h1 = hdr_name h2" "hdr_fields h1 = hdr_fields h2"
    using blocksOf_swap_header [OF that] by (simp add: parseLoop_blocks)
  have d: "parseLoop con (l # rest) result diags =
      parseLoop con (dropWhile (\<lambda>x. \<not> isHeader x) rest) r'
        (if Finite (of_nat (length (takeWhile (\<lambda>x. \<not> isHeader x) rest))) \<noteq> hdr_count h \<and> con
         then diags @ [CountMismatch (hdr_name h) (hdr_count h)
                         (length (takeWhile (\<lambda>x. \<not> isHeader x) rest))]
         else diags)"
    if "parseHeader l = Some h"
      "mergeBlock result (hdr_name h)
        (map (makeRecord (hdr_fields h)) (takeWhile (\<lambda>x. \<not> isHeader x) rest)) = Inr r'"
    using that by (simp add: parseHeader_isHeader readRows_eq)
  from a b c d show ?thesis by blast
qed

theorem row_count_is_lines_consumed_witness:
  "parseHeader ''pts[5]{x}:'' = Some \<lparr>hdr_name = ''pts'', hdr_count = Finite 5, hdr_fields = [''x'']\<rparr> \<and>
   parseHeader ''pts[2]{x}:'' = Some \<lparr>hdr_name = ''pts'', hdr_count = Finite 2, hdr_fields = [''x'']\<rparr> \<and>
   parseLoop True [''pts[5]{x}:'', ''1'', ''2''] [] [] =
     (Inr [(''pts'', [Obj [(''x'', JNum (Finite 1))] False, Obj [(''x'', JNum (Finite 2))] False])],
      [CountMismatch ''pts'' (Finite 5) 2]) \<and>
   fst (parseLoop True [''pts[2]{x}:'', ''1'', ''2''] [] []) =
     Inr [(''pts'', [Obj [(''x'', JNum (Finite 1))] False, Obj [(''x'', JNum (Finite 2))] False])]"
proof -
  let ?h1 = "\<lparr>hdr_name = ''pts'', hdr_count = Finite 5, hdr_fields = [''x'']\<rparr>"
  let ?h2 = "\<lparr>hdr_name = ''pts'', hdr_count = Finite 2, hdr_fields = [''x'']\<rparr>"
  have p1: "parseHeader ''pts[5]{x}:'' = Some ?h1" by code_simp
  have p2: "parseHeader ''pts[2]{x}:'' = Some ?h2" by code_simp
  have r: "parseLoop True [''pts[5]{x}:'', ''1'', ''2''] [] [] =
     (Inr [(''pts'', [Obj [(''x'', JNum (Finite 1))] False, Obj [(''x'', JNum (Finite 2))] False])],
      [CountMismatch ''pts'' (Finite 5) 2])"
    by code_simp
  from row_count_is_lines_consumed
    [of "[]" "[]" "''pts[5]{x}:''" ?h1 "''pts[2]{x}:''" ?h2 True "[]" "[''1'', ''2'']" "[]" "[]" "[]"]
    p1 p2
  have "fst (parseLoop True ([] @ ''pts[5]{x}:'' # [''1'', ''2'']) [] []) =
      fst (parseLoop True ([] @ ''pts[2]{x}:'' # [''1'', ''2'']) [] [])"
    by simp
  with r p1 p2 show ?thesis by simp
qed

lemma split_join:
  "ls \<noteq> [] \<Longrightarrow> \<forall>l\<in>set ls. sep \<notin> set l \<Longrightarrow> split sep (join sep ls) = ls"
proof (induction sep ls rule: join.induct)
  case (1 sep)
  then show ?case by simp
next
  case (2 sep l)
  then show ?case by (simp add: split_no_sep)
next
  case (3 sep l m ls)
  then have "split sep (join sep (m # ls)) = m # ls" by simp
  with 3 show ?case by (simp add: split_append_sep split_no_sep del: split.simps)
qed

lemma normalizeLines_join:
  assumes "\<forall>l\<in>set ls. LF \<notin> set l"
  shows "normalizeLines (join LF ls) =
     filter (\<lambda>l. length l > 0 \<and> \<not> startsWith l ''#'' \<and> \<not> startsWith l ''//'') (map trim ls)"
proof (cases ls)
  case Nil
  then show ?thesis by (simp add: normalizeLines_def trim_def)
next
  case (Cons a as)
  with assms have "split LF (join LF ls) = ls" by (intro split_join) simp_all
  then show ?thesis by (simp add: normalizeLines_def)
qed

lemma inserted_lines_filtered:
  "withInsertedLines ls ls' \<Longrightarrow>
     filter (\<lambda>l. length l > 0 \<and> \<not> startsWith l ''#'' \<and> \<not> startsWith l ''//'') (map trim ls') =
     filter (\<lambda>l. length l > 0 \<and> \<not> startsWith l ''#'' \<and> \<not> startsWith l ''//'') (map trim ls)"
  by (induction ls ls' rule: withInsertedLines.induct) (auto simp: isBlankOrComment_def)

text \<open>
  Claim C9. Inserting blank lines and comment lines anywhere between the lines of a
  document text, before the first and after the last included, does not change what
  the parser returns.
\<close>

theorem inserted_blank_and_comment_lines_are_ignored:
  assumes "withInsertedLines (split LF text) ls'" and "\<forall>l\<in>set ls'. LF \<notin> set l"
  shows "parseFromString con (join LF ls') = parseFromString con text"
proof -
  have "normalizeLines (join LF ls') = normalizeLines text"
    using normalizeLines_join [OF assms(2)] inserted_lines_filtered [OF assms(1)]
    by (simp add: normalizeLines_def)
  then show ?thesis by (simp add: parseFromString_def)
qed

theorem inserted_blank_and_comment_lines_are_ignored_witness:
  "withInsertedLines (split LF (''t[1]{a}:'' @ [LF] @ ''1''))
     [''# c'', ''t[1]{a}:'', [], ''// d'', ''1'', ''  ''] \<and>
   list_all (\<lambda>l. LF \<notin> set l) [''# c'', ''t[1]{a}:'', [], ''// d'', ''1'', ''  ''] \<and>
   parseFromString True (join LF [''# c'', ''t[1]{a}:'', [], ''// d'', ''1'', ''  '']) =
     parseFromString True (''t[1]{a}:'' @ [LF] @ ''1'') \<and>
   parseFromString True (''t[1]{a}:'' @ [LF] @ ''1'') =
     (Inr [(''t'', [Obj [(''a'', JNum (Finite 1))] False])], [])"
proof -
  let ?T = "''t[1]{a}:'' @ [LF] @ ''1''"
  let ?L = "[''# c'', ''t[1]{a}:'', [], ''// d'', ''1'', ''  '']"
  have w: "withInsertedLines (split LF ?T) ?L" by code_simp
  have n: "\<forall>l\<in>set ?L. LF \<notin> set l" by (simp add: LF_def)
  have p: "parseFromString True ?T = (Inr [(''t'', [Obj [(''a'', JNum (Finite 1))] False])], [])"
    by code_simp
  from inserted_blank_and_comment_lines_are_ignored [OF w n, of True] w n p
  show ?thesis by (simp add: list_all_iff)
qed

text \<open>
  The parser raises only a \<open>TypeError\<close>, and it does so exactly when a block has a name
  that \<open>result\<close> inherits from \<open>Object.prototype\<close>.
\<close>

lemma mergeAll_raises:
  "set (map fst result) \<inter> set objectPrototypeKeys = {} \<Longrightarrow>
     (mergeAll result bs = Inl e) =
     (e = TypeError \<and> (\<exists>b\<in>set bs. fst b \<in> set objectPrototypeKeys))"
proof (induction bs arbitrary: result)
  case Nil
  show ?case by simp
next
  case (Cons b bs)
  show ?case
  proof (cases "fst b \<in> set objectPrototypeKeys")
    case True
    with Cons.prems have "fst b \<notin> set (map fst result)" by blast
    then have "map_of result (fst b) = None" by (simp add: map_of_eq_None_iff)
    with True have "mergeBlock result (fst b) (snd b) = Inl TypeError"
      by (simp add: mergeBlock_def)
    with True show ?thesis by auto
  next
    case False
    then obtain r' where m: "mergeBlock result (fst b) (snd b) = Inr r'"
      by (cases "map_of result (fst b)") (simp_all add: mergeBlock_def)
    from mergeBlock_keys [OF m] have "set (map fst r') \<subseteq> insert (fst b) (set (map fst result))"
      by (auto split: if_splits)
    with False Cons.prems have "set (map fst r') \<inter> set objectPrototypeKeys = {}" by blast
    from Cons.IH [OF this] m False show ?thesis by simp
  qed
qed

lemma parseFromString_raises_iff:
  "(fst (parseFromString con text) = Inl e) =
     (e = TypeError \<and>
      (\<exists>b\<in>set (blocksOf (normalizeLines text)). hdr_name (fst b) \<in> set objectPrototypeKeys))"
  by (simp add: parseFromString_blocks mergeAll_raises blockRows_def)

lemma parseFromLines_not_array: "parseFromLines con NotAnArray = (Inl InvocationError, [])"
  by (simp add: parseFromLines_def)

lemma parseFromLines_array:
  "parseFromLines con (ArrayOfStrings ls) = parseFromString con (join LF ls)"
  by (simp add: parseFromLines_def)

text \<open>
  Claim C8. The claim says that \<open>parseFromLines\<close> raises an error exactly when its
  argument is not an array. The array with the one line \<open>toString[0]{a}:\<close> makes it
  raise a \<open>TypeError\<close>, with or without a console, and so does the text buffer entry
  point on that line.
\<close>

theorem parseFromLines_raises_on_inherited_name:
  "parseFromLines True (ArrayOfStrings [''toString[0]{a}:'']) = (Inl TypeError, []) \<and>
   parseFromLines False (ArrayOfStrings [''toString[0]{a}:'']) = (Inl TypeError, []) \<and>
   parseFromString True ''toString[0]{a}:'' = (Inl TypeError, [])"
  by code_simp

text \<open>
  When no block has a name that \<open>result\<close> inherits, the parser returns a document: its
  keys are exactly the names of the blocks, and the list under a name is the
  concatenation, in document order, of the row sets of the blocks of that name.
\<close>

lemma parseFromString_returns:
  assumes "\<forall>b\<in>set (blocksOf (normalizeLines text)). hdr_name (fst b) \<notin> set objectPrototypeKeys"
  shows "\<exists>doc. fst (parseFromString con text) = Inr doc"
proof (cases "fst (parseFromString con text)")
  case (Inl e)
  with parseFromString_raises_iff [of con "text" e] assms show ?thesis by blast
next
  case (Inr doc)
  then show ?thesis by blast
qed

lemma returned_document_rows:
  assumes "fst (parseFromString con text) = Inr doc"
    and "nm \<in> set (map (\<lambda>b. hdr_name (fst b)) (blocksOf (normalizeLines text)))"
  shows "map_of doc nm =
     Some (concat (map (\<lambda>b. snd (blockRows b))
       (filter (\<lambda>b. hdr_name (fst b) = nm) (blocksOf (normalizeLines text)))))"
proof -
  let ?bs = "blocksOf (normalizeLines text)"
  from assms(1) have m: "mergeAll [] (map blockRows ?bs) = Inr doc"
    using parseFromString_blocks [of con "text"] by simp
  have "nm \<in> fst ` set (map blockRows ?bs)"
    using assms(2) by (auto simp: blockRows_def image_iff)
  with mergeAll_keys [OF m] have "nm \<in> set (map fst doc)" by simp
  then obtain v where v: "map_of doc nm = Some v"
    by (metis map_of_eq_None_iff not_None_eq set_map)
  have f: "filter (\<lambda>b. fst b = nm) (map blockRows ?bs) =
      map blockRows (filter (\<lambda>b. hdr_name (fst b) = nm) ?bs)"
    by (simp add: filter_map o_def blockRows_def)
  from mergeAll_rows [OF m, of nm] v f show ?thesis
    by (simp add: o_def)
qed

lemma returned_document_keys:
  assumes "fst (parseFromString con text) = Inr doc"
  shows "set (map fst doc) = set (map (\<lambda>b. hdr_name (fst b)) (blocksOf (normalizeLines text)))"
proof -
  from assms have "mergeAll [] (map blockRows (blocksOf (normalizeLines text))) = Inr doc"
    using parseFromString_blocks [of con "text"] by simp
  from mergeAll_keys [OF this] show ?thesis
    by (simp add: image_image blockRows_def)
qed

lemma merge_law_without_inherited_names:
  assumes "\<forall>b\<in>set (blocksOf (normalizeLines text)). hdr_name (fst b) \<notin> set objectPrototypeKeys"
  shows "\<exists>doc. fst (parseFromString con text) = Inr doc \<and>
     set (map fst doc) = set (map (\<lambda>b. hdr_name (fst b)) (blocksOf (normalizeLines text))) \<and>
     (\<forall>nm\<in>set (map (\<lambda>b. hdr_name (fst b)) (blocksOf (normalizeLines text))).
        map_of doc nm =
          Some (concat (map (\<lambda>b. snd (blockRows b))
            (filter (\<lambda>b. hdr_name (fst b) = nm) (blocksOf (normalizeLines text))))))"
proof -
  from parseFromString_returns [OF assms, of con]
  obtain doc where d: "fst (parseFromString con text) = Inr doc" by blast
  from d returned_document_keys [OF d] returned_document_rows [OF d]
  show ?thesis by blast
qed

lemma merge_law_example:
  "parseFromString True (''name[1]{a}:'' @ [LF] @ ''1'' @ [LF] @ ''name[1]{a}:'' @ [LF] @ ''2'')
     = (Inr [(''name'', [Obj [(''a'', JNum (Finite 1))] False, Obj [(''a'', JNum (Finite 2))] False])],
        [])"
  by code_simp

lemma mergeBlock_empty_total:
  assumes "nm \<notin> set objectPrototypeKeys"
  shows "mergeBlock result nm [] =
     Inr (if nm \<in> set (map fst result) then result else result @ [(nm, [])])"
proof -
  from assms obtain r' where m: "mergeBlock result nm [] = Inr r'"
    by (cases "map_of result nm") (simp_all add: mergeBlock_def)
  with mergeBlock_empty [OF m] show ?thesis by simp
qed

lemma readRows_no_data_line:
  "readRows flds [] [] = ([], []) \<and>
   (isHeader l' \<longrightarrow> readRows flds (l' # ls) [] = ([], l' # ls))"
  by simp

text \<open>
  Claim C5. The claim gives every document with two or more blocks of the same name a
  Document in which the record list of that name is the concatenation of their row
  sets. The document with two blocks named \<open>valueOf\<close> and the rows \<open>1\<close> and \<open>2\<close> has
  no Document: the merge of the first block raises a \<open>TypeError\<close>.
\<close>

theorem same_name_blocks_raise_on_inherited_name:
  "map (\<lambda>b. hdr_name (fst b))
     (blocksOf (normalizeLines
        (''valueOf[1]{a}:'' @ [LF] @ ''1'' @ [LF] @ ''valueOf[1]{a}:'' @ [LF] @ ''2'')))
     = [''valueOf'', ''valueOf''] \<and>
   parseFromString True
     (''valueOf[1]{a}:'' @ [LF] @ ''1'' @ [LF] @ ''valueOf[1]{a}:'' @ [LF] @ ''2'')
     = (Inl TypeError, []) \<and>
   parseFromString False
     (''valueOf[1]{a}:'' @ [LF] @ ''1'' @ [LF] @ ''valueOf[1]{a}:'' @ [LF] @ ''2'')
     = (Inl TypeError, [])"
  by code_simp

text \<open>
  Claim C10. The claim lets a header without data lines register its name, with the
  empty list when the name is new, and makes every matched block name a key of the
  returned Document. The header \<open>toString[0]{a}:\<close> is matched and has no data line,
  before another header as at the end of the input; its name is new, and the merge of
  its empty row set raises a \<open>TypeError\<close>, so that no Document is returned.
\<close>

theorem block_without_rows_raises_on_inherited_name:
  "isHeader ''toString[0]{a}:'' \<and>
   readRows [''a''] [''b[0]{x}:''] [] = ([], [''b[0]{x}:'']) \<and>
   mergeBlock [] ''toString'' [] = Inl TypeError \<and>
   parseFromString True (''toString[0]{a}:'' @ [LF] @ ''b[0]{x}:'') = (Inl TypeError, []) \<and>
   parseFromString False ''toString[0]{a}:'' = (Inl TypeError, [])"
  by code_simp

end
